theory Spec2Isabelle
  imports Main "HOL-Library.AList" "HOL-Library.Word"
begin

section \<open>Python containers used by \<open>plc_dashboard.py\<close>\<close>

text \<open>
  A Python \<open>dict\<close> keeps its keys in insertion order and overwrites the value of a key
  that is already present, in place. An association list whose only writer is
  \<open>AList.update\<close> behaves the same way: \<open>d[k] = v\<close> is \<open>AList.update k v d\<close>, and
  a lookup is \<open>map_of d k\<close>.

  A Python exception is represented by its message \<open>str(exc)\<close>, which is all that the
  program ever looks at (it is interpolated into \<open>last_error\<close>).
\<close>

type_synonym ('k, 'v) dict = "('k \<times> 'v) list"

type_synonym exn = string

text \<open>\<open>d.get(key, default)\<close>: a lookup that never inserts, also on a \<open>defaultdict\<close>
  (\<open>get\<close> does not go through \<open>__missing__\<close>). The dictionary is returned next to the
  value, so that the callers thread the store through every access.\<close>

definition dict_get :: "('k, 'v) dict \<Rightarrow> 'k \<Rightarrow> 'v \<Rightarrow> 'v \<times> ('k, 'v) dict" where
  "dict_get d key dflt = (case map_of d key of None \<Rightarrow> (dflt, d) | Some v \<Rightarrow> (v, d))"

text \<open>\<open>collections.deque(maxlen=maxlen)\<close>: the constructor raises \<open>ValueError\<close> for a
  negative \<open>maxlen\<close>. A bounded deque is a list together with the bound of the store that
  made it (all deques of one store are built by the same closure).\<close>

definition deque_new :: "int \<Rightarrow> exn + 'a list" where
  "deque_new maxlen = (if maxlen < 0 then Inl ''maxlen must be non-negative'' else Inr [])"

text \<open>\<open>deque.append(x)\<close> on a bounded deque: the item is added on the right, and if the
  deque is then longer than \<open>maxlen\<close> one item is removed on the left.\<close>

definition deque_append :: "int \<Rightarrow> 'a list \<Rightarrow> 'a \<Rightarrow> 'a list" where
  "deque_append maxlen d x =
     (let d' = d @ [x] in if nat maxlen < length d' then tl d' else d')"

text \<open>\<open>dd[key]\<close> on \<open>defaultdict(lambda: deque(maxlen=maxlen))\<close>: a missing key is
  created with the value of the factory, which may raise.\<close>

definition defaultdict_getitem ::
  "int \<Rightarrow> ('k, 'a list) dict \<Rightarrow> 'k \<Rightarrow> exn + ('a list \<times> ('k, 'a list) dict)" where
  "defaultdict_getitem maxlen d key =
     (case map_of d key of
        Some v \<Rightarrow> Inr (v, d)
      | None \<Rightarrow>
          (case deque_new maxlen of
             Inl e \<Rightarrow> Inl e
           | Inr v \<Rightarrow> Inr (v, AList.update key v d)))"

section \<open>\<open>DataBuffer\<close>: the last N samples per signal\<close>

text \<open>A sample is the pair \<open>(timestamp, value)\<close>. Timestamps (Python floats) and values
  (\<open>Any\<close>) are only stored and returned, never computed with, so both are type
  parameters. The lock has no effect on a sequential run and is left out.\<close>

record ('t, 'v) DataBuffer =
  maxlen :: int
  data :: "(string, ('t \<times> 'v) list) dict"

definition DataBuffer_init :: "int \<Rightarrow> ('t, 'v) DataBuffer" where
  "DataBuffer_init n = \<lparr>maxlen = n, data = []\<rparr>"

text \<open>\<open>self._data[key].append((timestamp, value))\<close>\<close>

definition DataBuffer_append ::
  "('t, 'v) DataBuffer \<Rightarrow> string \<Rightarrow> 't \<Rightarrow> 'v \<Rightarrow> exn + ('t, 'v) DataBuffer" where
  "DataBuffer_append b key timestamp val =
     (case defaultdict_getitem (maxlen b) (data b) key of
        Inl e \<Rightarrow> Inl e
      | Inr (dq, d') \<Rightarrow>
          Inr (b\<lparr>data := AList.update key (deque_append (maxlen b) dq (timestamp, val)) d'\<rparr>))"

text \<open>\<open>{key: list(self._data.get(key, [])) for key in keys}\<close>: the comprehension visits
  the keys in order; each visit is one \<open>get\<close> on the store and one assignment in the
  result. The store after the call is returned with the result.\<close>

fun snapshot_loop ::
  "(string, 'a list) dict \<Rightarrow> string list \<Rightarrow> (string, 'a list) dict
     \<Rightarrow> (string, 'a list) dict \<times> (string, 'a list) dict" where
  "snapshot_loop d [] res = (res, d)"
| "snapshot_loop d (key # keys) res =
     (case dict_get d key [] of
        (v, d') \<Rightarrow> snapshot_loop d' keys (AList.update key v res))"

definition DataBuffer_snapshot ::
  "('t, 'v) DataBuffer \<Rightarrow> string list
     \<Rightarrow> (string, ('t \<times> 'v) list) dict \<times> ('t, 'v) DataBuffer" where
  "DataBuffer_snapshot b keys =
     (case snapshot_loop (data b) keys [] of (res, d') \<Rightarrow> (res, b\<lparr>data := d'\<rparr>))"

text \<open>A run of appends, in order, stopping at the first exception: the calls a writer
  makes one after the other, each given as \<open>(key, timestamp, value)\<close>.\<close>

fun append_all ::
  "('t, 'v) DataBuffer \<Rightarrow> (string \<times> 't \<times> 'v) list \<Rightarrow> exn + ('t, 'v) DataBuffer" where
  "append_all b [] = Inr b"
| "append_all b ((key, timestamp, val) # ops) =
     (case DataBuffer_append b key timestamp val of
        Inl e \<Rightarrow> Inl e
      | Inr b' \<Rightarrow> append_all b' ops)"

text \<open>The samples that a run of appends sends to one key, in order.\<close>

definition samples_of :: "string \<Rightarrow> (string \<times> 't \<times> 'v) list \<Rightarrow> ('t \<times> 'v) list" where
  "samples_of key ops = map snd (filter (\<lambda>op. fst op = key) ops)"

text \<open>The last \<open>n\<close> elements of a list (all of it when it is shorter).\<close>

definition lastn :: "nat \<Rightarrow> 'a list \<Rightarrow> 'a list" where
  "lastn n xs = drop (length xs - n) xs"

text \<open>Every stored deque respects the bound of the store.\<close>

definition bounded_store :: "('t, 'v) DataBuffer \<Rightarrow> bool" where
  "bounded_store b =
     (0 \<le> maxlen b \<and> list_all (\<lambda>(k, dq). length dq \<le> nat (maxlen b)) (data b))"

text \<open>What a store holds for a key: the deque, or nothing for a key never created.\<close>

definition history :: "('t, 'v) DataBuffer \<Rightarrow> string \<Rightarrow> ('t \<times> 'v) list" where
  "history b key = (case map_of (data b) key of None \<Rightarrow> [] | Some dq \<Rightarrow> dq)"

section \<open>The snap7 client, as the manager sees it\<close>

text \<open>
  \<open>snap7\<close> is an external library. Its behaviour is a parameter of the model: a record
  of functions over an arbitrary session state \<open>'c\<close>. A call that raises returns the
  message of the exception; every call may change the session.
  \<^item> \<open>client_connect ip rack slot\<close>: \<open>None\<close> when the call returns, \<open>Some msg\<close> when
    it raises;
  \<^item> \<open>client_get_connected\<close>: whether the session reports alive (a boolean: this call
    is taken not to raise);
  \<^item> \<open>client_db_read db_number start size\<close>: the bytes read, or the exception;
  \<^item> \<open>util_get_real\<close>, \<open>util_get_int\<close>, \<open>util_get_dint\<close> (buffer, byte index) and
    \<open>util_get_bool\<close> (buffer, byte index, bit index): the decoded value, or the
    exception.
\<close>

type_synonym bytes = "8 word list"

record ('c, 'v) snap7 =
  client_connect :: "string \<Rightarrow> int \<Rightarrow> int \<Rightarrow> 'c \<Rightarrow> exn option \<times> 'c"
  client_get_connected :: "'c \<Rightarrow> bool \<times> 'c"
  client_db_read :: "int \<Rightarrow> int \<Rightarrow> int \<Rightarrow> 'c \<Rightarrow> (exn + bytes) \<times> 'c"
  util_get_real :: "bytes \<Rightarrow> nat \<Rightarrow> exn + 'v"
  util_get_int :: "bytes \<Rightarrow> nat \<Rightarrow> exn + 'v"
  util_get_dint :: "bytes \<Rightarrow> nat \<Rightarrow> exn + 'v"
  util_get_bool :: "bytes \<Rightarrow> nat \<Rightarrow> nat \<Rightarrow> exn + 'v"

text \<open>The client object: its session, and the calls made on it so far, oldest first.
  The list of calls is not in the source; it records what the manager asked of the
  client, so that "no connection attempt" can be stated.\<close>

datatype call = CallConnect string int int | CallGetConnected | CallDbRead int int int

record 'c Client =
  session :: 'c
  calls :: "call list"

definition Client_connect ::
  "('c, 'v) snap7 \<Rightarrow> string \<Rightarrow> int \<Rightarrow> int \<Rightarrow> 'c Client \<Rightarrow> exn option \<times> 'c Client" where
  "Client_connect lib ip_addr rack_no slot_no cl =
     (case client_connect lib ip_addr rack_no slot_no (session cl) of
        (r, s) \<Rightarrow> (r, \<lparr>session = s, calls = calls cl @ [CallConnect ip_addr rack_no slot_no]\<rparr>))"

definition Client_get_connected :: "('c, 'v) snap7 \<Rightarrow> 'c Client \<Rightarrow> bool \<times> 'c Client" where
  "Client_get_connected lib cl =
     (case client_get_connected lib (session cl) of
        (r, s) \<Rightarrow> (r, \<lparr>session = s, calls = calls cl @ [CallGetConnected]\<rparr>))"

definition Client_db_read ::
  "('c, 'v) snap7 \<Rightarrow> int \<Rightarrow> int \<Rightarrow> int \<Rightarrow> 'c Client \<Rightarrow> (exn + bytes) \<times> 'c Client" where
  "Client_db_read lib db st sz cl =
     (case client_db_read lib db st sz (session cl) of
        (r, s) \<Rightarrow> (r, \<lparr>session = s, calls = calls cl @ [CallDbRead db st sz]\<rparr>))"

fun is_connect :: "call \<Rightarrow> bool" where
  "is_connect (CallConnect _ _ _) = True"
| "is_connect _ = False"

fun is_db_read :: "call \<Rightarrow> bool" where
  "is_db_read (CallDbRead _ _ _) = True"
| "is_db_read _ = False"

text \<open>The number of connection attempts made on a client.\<close>

definition connect_attempts :: "'c Client \<Rightarrow> nat" where
  "connect_attempts cl = length (filter is_connect (calls cl))"

section \<open>\<open>Tag\<close> and \<open>PLCManager\<close>\<close>

text \<open>The field \<open>name\<close> of \<open>Tag\<close> is \<open>tag_name\<close> here and \<open>size\<close> is \<open>tag_size\<close>;
  \<open>parse\<close> is the optional custom decoder.\<close>

record 'v Tag =
  tag_name :: string
  db_number :: int
  start :: int
  tag_size :: int
  data_type :: string
  parse :: "(bytes \<Rightarrow> exn + 'v) option"

record ('c, 'v) PLCManager =
  name :: string
  ip :: string
  rack :: int
  slot :: int
  tags :: "'v Tag list"
  client :: "'c Client"
  last_error :: "string option"
  connected :: bool

text \<open>\<open>__init__\<close>; \<open>c0\<close> is the session state of a fresh \<open>snap7.client.Client()\<close>.\<close>

definition PLCManager_init ::
  "'c \<Rightarrow> string \<Rightarrow> string \<Rightarrow> int \<Rightarrow> int \<Rightarrow> 'v Tag list \<Rightarrow> ('c, 'v) PLCManager" where
  "PLCManager_init c0 nm ip_addr rack_no slot_no tgs =
     \<lparr>name = nm, ip = ip_addr, rack = rack_no, slot = slot_no, tags = tgs,
      client = \<lparr>session = c0, calls = []\<rparr>, last_error = None, connected = False\<rparr>"

text \<open>\<open>connect\<close>: nothing when already connected; otherwise one call of the client's
  \<open>connect\<close>, then \<open>get_connected\<close> decides the flag. An exception of the client is
  caught and recorded.\<close>

definition PLCManager_connect ::
  "('c, 'v) snap7 \<Rightarrow> ('c, 'v) PLCManager \<Rightarrow> ('c, 'v) PLCManager" where
  "PLCManager_connect lib m =
     (if connected m then m
      else
        (case Client_connect lib (ip m) (rack m) (slot m) (client m) of
           (Some exc, c1) \<Rightarrow>
             m\<lparr>client := c1, connected := False,
               last_error := Some (''Connection error: '' @ exc)\<rparr>
         | (None, c1) \<Rightarrow>
             (case Client_get_connected lib c1 of
                (alive, c2) \<Rightarrow>
                  m\<lparr>client := c2, connected := alive,
                    last_error := (if alive then None else Some ''Unknown connection issue'')\<rparr>)))"

text \<open>\<open>_ensure_connection\<close>: \<open>not self.connected or not self.client.get_connected()\<close>
  asks the client only when the flag is set (\<open>or\<close> short-circuits).\<close>

definition ensure_connection ::
  "('c, 'v) snap7 \<Rightarrow> ('c, 'v) PLCManager \<Rightarrow> bool \<times> ('c, 'v) PLCManager" where
  "ensure_connection lib m =
     (if \<not> connected m then
        (let m' = PLCManager_connect lib (m\<lparr>connected := False\<rparr>) in (connected m', m'))
      else
        (case Client_get_connected lib (client m) of
           (alive, c1) \<Rightarrow>
             (if \<not> alive then
                (let m' = PLCManager_connect lib (m\<lparr>client := c1, connected := False\<rparr>)
                 in (connected m', m'))
              else (True, m\<lparr>client := c1\<rparr>))))"

text \<open>\<open>str.lower()\<close>, a character being its code point (up to U+00FF): the letters A to
  Z (65 to 90) and the capital letters of Latin-1 (192 to 222, without the multiplication
  sign 215) move up by 32; every other character is kept.\<close>

definition lower_char :: "char \<Rightarrow> char" where
  "lower_char c =
     (let n = (of_char c :: nat) in
      if (65 \<le> n \<and> n \<le> 90) \<or> (192 \<le> n \<and> n \<le> 222 \<and> n \<noteq> 215) then char_of (n + 32)
      else c)"

definition lower :: "string \<Rightarrow> string" where
  "lower s = map lower_char s"

text \<open>\<open>_parse_value\<close>: the custom decoder when there is one, else the decoder of the
  lower-cased type name, else \<open>ValueError\<close>.\<close>

definition parse_value :: "('c, 'v) snap7 \<Rightarrow> 'v Tag \<Rightarrow> bytes \<Rightarrow> exn + 'v" where
  "parse_value lib tag raw =
     (case parse tag of
        Some f \<Rightarrow> f raw
      | None \<Rightarrow>
          (let dt = lower (data_type tag) in
           if dt = ''real'' then util_get_real lib raw 0
           else if dt = ''int'' then util_get_int lib raw 0
           else if dt = ''dint'' then util_get_dint lib raw 0
           else if dt = ''bool'' then util_get_bool lib raw 0 0
           else Inl (''Unsupported data type: '' @ data_type tag)))"

text \<open>The body of the \<open>try\<close> in \<open>read_tags\<close> for one tag: the block read, then the
  decoding. \<open>Inl\<close> is the exception that the \<open>except\<close> clause receives.\<close>

definition read_one ::
  "('c, 'v) snap7 \<Rightarrow> 'v Tag \<Rightarrow> 'c Client \<Rightarrow> (exn + 'v) \<times> 'c Client" where
  "read_one lib tag cl =
     (case Client_db_read lib (db_number tag) (start tag) (tag_size tag) cl of
        (Inl exc, c1) \<Rightarrow> (Inl exc, c1)
      | (Inr raw, c1) \<Rightarrow> (parse_value lib tag raw, c1))"

text \<open>The \<open>for\<close> loop of \<open>read_tags\<close>: on the first exception the error is recorded,
  the flag is cleared and the loop is left (\<open>break\<close>).\<close>

fun read_loop ::
  "('c, 'v) snap7 \<Rightarrow> ('c, 'v) PLCManager \<Rightarrow> 'v Tag list \<Rightarrow> (string, 'v) dict
     \<Rightarrow> (string, 'v) dict \<times> ('c, 'v) PLCManager" where
  "read_loop lib m [] vals = (vals, m)"
| "read_loop lib m (tag # rest) vals =
     (case read_one lib tag (client m) of
        (Inl exc, c1) \<Rightarrow>
          (vals, m\<lparr>client := c1,
                  last_error := Some (''Read error for '' @ tag_name tag @ '': '' @ exc),
                  connected := False\<rparr>)
      | (Inr v, c1) \<Rightarrow>
          read_loop lib (m\<lparr>client := c1\<rparr>) rest (AList.update (tag_name tag) v vals))"

definition read_tags ::
  "('c, 'v) snap7 \<Rightarrow> ('c, 'v) PLCManager \<Rightarrow> (string, 'v) dict \<times> ('c, 'v) PLCManager" where
  "read_tags lib m =
     (case ensure_connection lib m of
        (ok, m1) \<Rightarrow> if \<not> ok then ([], m1) else read_loop lib m1 (tags m1) [])"

section \<open>\<open>PLCReader\<close>: one cycle of the polling thread\<close>

text \<open>The loop \<open>for name, value in values.items()\<close> of \<open>run\<close>: every value read in the
  cycle is appended under the key \<open><manager name>.<name>\<close> with the start time of the
  cycle. An exception of \<open>append\<close> is not caught in \<open>run\<close>.\<close>

fun append_values ::
  "('t, 'v) DataBuffer \<Rightarrow> string \<Rightarrow> 't \<Rightarrow> (string, 'v) dict \<Rightarrow> exn + ('t, 'v) DataBuffer" where
  "append_values b manager_name start_time [] = Inr b"
| "append_values b manager_name start_time ((nm, val) # rest) =
     (case DataBuffer_append b (manager_name @ ''.'' @ nm) start_time val of
        Inl e \<Rightarrow> Inl e
      | Inr b' \<Rightarrow> append_values b' manager_name start_time rest)"

text \<open>The body of the \<open>while\<close> loop of \<open>run\<close>, without the sleep: \<open>start_time\<close> is the
  value of \<open>time.time()\<close>. \<open>Inl\<close> is an exception that leaves \<open>run\<close> and ends the
  thread.\<close>

definition PLCReader_cycle ::
  "('c, 'v) snap7 \<Rightarrow> 't \<Rightarrow> ('c, 'v) PLCManager \<Rightarrow> ('t, 'v) DataBuffer
     \<Rightarrow> exn + (('c, 'v) PLCManager \<times> ('t, 'v) DataBuffer)" where
  "PLCReader_cycle lib start_time m b =
     (case read_tags lib m of
        (vals, m') \<Rightarrow>
          (case append_values b (name m') start_time vals of
             Inl e \<Rightarrow> Inl e
           | Inr b' \<Rightarrow> Inr (m', b')))"

section \<open>The query endpoints\<close>

text \<open>\<open>sep.join(parts)\<close>\<close>

fun join :: "string \<Rightarrow> string list \<Rightarrow> string" where
  "join sep [] = []"
| "join sep [x] = x"
| "join sep (x # y # ys) = x @ sep @ join sep (y # ys)"

text \<open>\<open>s.split(sep)\<close> for a separator of one character: the pieces between the
  separators, also the empty ones; the empty string gives one empty piece.\<close>

fun split :: "char \<Rightarrow> string \<Rightarrow> string list" where
  "split sep [] = [[]]"
| "split sep (c # cs) =
     (if c = sep then [] # split sep cs
      else (case split sep cs of [] \<Rightarrow> [[c]] | w # ws \<Rightarrow> (c # w) # ws))"

text \<open>The truth value of \<open>manager.last_error\<close> in \<open>elif manager.last_error\<close>: \<open>None\<close>
  and the empty string are false.\<close>

fun truthy :: "string option \<Rightarrow> bool" where
  "truthy None = False"
| "truthy (Some e) = (e \<noteq> [])"

text \<open>The loop of \<open>data\<close> that fills \<open>status_parts\<close>.\<close>

fun status_loop :: "('c, 'v) PLCManager list \<Rightarrow> string list \<Rightarrow> string list" where
  "status_loop [] status_parts = status_parts"
| "status_loop (m # ms) status_parts =
     status_loop ms
       (status_parts @
          [if connected m then name m @ '': verbunden''
           else (case last_error m of
                   Some e \<Rightarrow>
                     if truthy (Some e) then name m @ '': '' @ e
                     else name m @ '': nicht verbunden''
                 | None \<Rightarrow> name m @ '': nicht verbunden'')])"

text \<open>The values of the two JSON objects that the endpoints return.\<close>

datatype ('t, 'v) json =
    JString string
  | JSeries "(string, ('t \<times> 'v) list) dict"
  | JFlags "(string, bool) dict"

text \<open>\<open>data\<close>, the route \<open>/data\<close>: \<open>args\<close> is \<open>request.args\<close>, \<open>b\<close> the global buffer and
  \<open>managers\<close> the global list of managers. The payload given to \<open>jsonify\<close> is returned,
  with the buffer after the call.\<close>

definition data_route ::
  "('t, 'v) DataBuffer \<Rightarrow> ('c, 'w) PLCManager list \<Rightarrow> (string, string) dict
     \<Rightarrow> (string, ('t, 'v) json) dict \<times> ('t, 'v) DataBuffer" where
  "data_route b managers args =
     (let selected_param = fst (dict_get args ''signals'' []);
          selected = filter (\<lambda>s. s \<noteq> []) (split (CHR '','') selected_param)
      in case DataBuffer_snapshot b selected of
           (series, b') \<Rightarrow>
             ([(''series'', JSeries series),
               (''status'', JString (join '' | '' (status_loop managers [])))], b'))"

text \<open>\<open>health\<close>, the route \<open>/health\<close>; the comprehension
  \<open>{m.name: m.connected for m in managers}\<close> is a loop of assignments.\<close>

fun health_loop :: "('c, 'v) PLCManager list \<Rightarrow> (string, bool) dict \<Rightarrow> (string, bool) dict" where
  "health_loop [] plcs = plcs"
| "health_loop (m # ms) plcs = health_loop ms (AList.update (name m) (connected m) plcs)"

definition health :: "('c, 'w) PLCManager list \<Rightarrow> (string, ('t, 'v) json) dict" where
  "health managers = [(''status'', JString ''ok''), (''plcs'', JFlags (health_loop managers []))]"

section \<open>Notions used to state the properties of the manager\<close>

text \<open>The flag and the recorded error agree: a manager that says it is connected has no
  error recorded.\<close>

definition consistent :: "('c, 'v) PLCManager \<Rightarrow> bool" where
  "consistent m = (connected m \<longrightarrow> last_error m = None)"

text \<open>The operations of a manager that write its state, and a run of them in order.\<close>

datatype manager_op = OpConnect | OpEnsureConnection | OpReadTags

fun run_op :: "('c, 'v) snap7 \<Rightarrow> ('c, 'v) PLCManager \<Rightarrow> manager_op \<Rightarrow> ('c, 'v) PLCManager" where
  "run_op lib m OpConnect = PLCManager_connect lib m"
| "run_op lib m OpEnsureConnection = snd (ensure_connection lib m)"
| "run_op lib m OpReadTags = snd (read_tags lib m)"

fun run_ops ::
  "('c, 'v) snap7 \<Rightarrow> ('c, 'v) PLCManager \<Rightarrow> manager_op list \<Rightarrow> ('c, 'v) PLCManager" where
  "run_ops lib m [] = m"
| "run_ops lib m (x # xs) = run_ops lib (run_op lib m x) xs"

text \<open>Reading a list of descriptors one after the other when every one of them succeeds:
  the names with the values read, in the declared order, and the client afterwards.
  \<open>None\<close> when the read or the decoding of one of them raises.\<close>

fun read_prefix ::
  "('c, 'v) snap7 \<Rightarrow> 'c Client \<Rightarrow> 'v Tag list \<Rightarrow> ((string \<times> 'v) list \<times> 'c Client) option" where
  "read_prefix lib cl [] = Some ([], cl)"
| "read_prefix lib cl (t # ts) =
     (case read_one lib t cl of
        (Inl exc, c1) \<Rightarrow> None
      | (Inr v, c1) \<Rightarrow>
          (case read_prefix lib c1 ts of
             None \<Rightarrow> None
           | Some (kvs, c2) \<Rightarrow> Some ((tag_name t, v) # kvs, c2)))"

text \<open>The dictionary that holds a list of entries, assigned in order.\<close>

definition dict_of :: "('k \<times> 'v) list \<Rightarrow> ('k, 'v) dict" where
  "dict_of kvs = fold (\<lambda>(k, v). AList.update k v) kvs []"

text \<open>The block read that a descriptor asks of the client.\<close>

definition read_call :: "'v Tag \<Rightarrow> call" where
  "read_call t = CallDbRead (db_number t) (start t) (tag_size t)"

section \<open>A scripted device for the scenarios\<close>

text \<open>A client whose session is one boolean (alive or not): \<open>connect\<close> always succeeds,
  a read of block 99 times out and kills the session, every other read returns \<open>size\<close>
  zero bytes, and each decoder returns the length of the buffer it is given.\<close>

definition demo_lib :: "(bool, int) snap7" where
  "demo_lib =
     \<lparr>client_connect = (\<lambda>ip_addr rack_no slot_no s. (None, True)),
      client_get_connected = (\<lambda>s. (s, s)),
      client_db_read = (\<lambda>db st sz s.
         if db = 99 then (Inl ''timeout'', False) else (Inr (replicate (nat sz) 0), s)),
      util_get_real = (\<lambda>raw i. Inr (int (length raw))),
      util_get_int = (\<lambda>raw i. Inr (int (length raw))),
      util_get_dint = (\<lambda>raw i. Inr (int (length raw))),
      util_get_bool = (\<lambda>raw i j. Inr (int (length raw)))\<rparr>"

definition demo_tag :: "string \<Rightarrow> int \<Rightarrow> int \<Rightarrow> string \<Rightarrow> int Tag" where
  "demo_tag nm db sz ty =
     \<lparr>tag_name = nm, db_number = db, start = 0, tag_size = sz, data_type = ty, parse = None\<rparr>"

definition demo_manager :: "int Tag list \<Rightarrow> (bool, int) PLCManager" where
  "demo_manager tgs = PLCManager_init False ''dev1'' ''192.168.0.10'' 0 1 tgs"

text \<open>Five signals of which the third cannot be read.\<close>

definition demo_five_tags :: "int Tag list" where
  "demo_five_tags =
     [demo_tag ''s1'' 1 4 ''real'', demo_tag ''s2'' 1 2 ''int'', demo_tag ''s3'' 99 4 ''real'',
      demo_tag ''s4'' 2 4 ''DINT'', demo_tag ''s5'' 2 1 ''bool'']"

text \<open>The demo manager after a successful \<open>_ensure_connection\<close> from its initial state.\<close>

definition demo_connected :: "int Tag list \<Rightarrow> (bool, int) PLCManager" where
  "demo_connected tgs =
     (demo_manager tgs)
       \<lparr>client := \<lparr>session = True, calls = [CallConnect ''192.168.0.10'' 0 1, CallGetConnected]\<rparr>,
        connected := True\<rparr>"

section \<open>The manager's operations, statement by statement\<close>

text \<open>
  \<open>data\<close> and \<open>health\<close> run in other threads than the polling thread and read
  \<open>manager.connected\<close> and \<open>manager.last_error\<close> without taking the manager's lock, so
  they can see the manager between any two statements of its operations. The traces
  below list, for each operation, the state of the manager after every statement that
  writes it (a call on the client, or an assignment to \<open>connected\<close> or \<open>last_error\<close>),
  in the order of the source. The last state of a trace is the state that the
  operation returns.
\<close>

text \<open>\<open>connect\<close>: the call \<open>client.connect\<close>; then, if it returned, the call
  \<open>client.get_connected\<close>, the assignment of its result to \<open>connected\<close> and the
  assignment to \<open>last_error\<close>; if it raised, \<open>connected = False\<close> and then the
  assignment to \<open>last_error\<close>.\<close>

definition PLCManager_connect_trace ::
  "('c, 'v) snap7 \<Rightarrow> ('c, 'v) PLCManager \<Rightarrow> ('c, 'v) PLCManager list" where
  "PLCManager_connect_trace lib m =
     (if connected m then []
      else
        (case Client_connect lib (ip m) (rack m) (slot m) (client m) of
           (Some exc, c1) \<Rightarrow>
             [m\<lparr>client := c1\<rparr>,
              m\<lparr>client := c1, connected := False\<rparr>,
              m\<lparr>client := c1, connected := False,
                last_error := Some (''Connection error: '' @ exc)\<rparr>]
         | (None, c1) \<Rightarrow>
             (case Client_get_connected lib c1 of
                (alive, c2) \<Rightarrow>
                  [m\<lparr>client := c1\<rparr>,
                   m\<lparr>client := c2\<rparr>,
                   m\<lparr>client := c2, connected := alive\<rparr>,
                   m\<lparr>client := c2, connected := alive,
                     last_error := (if alive then None else Some ''Unknown connection issue'')\<rparr>])))"

text \<open>\<open>_ensure_connection\<close>: the call \<open>client.get_connected\<close> when the flag is set; then,
  unless the session is alive, \<open>connected = False\<close> and the statements of \<open>connect\<close>.\<close>

definition ensure_connection_trace ::
  "('c, 'v) snap7 \<Rightarrow> ('c, 'v) PLCManager \<Rightarrow> ('c, 'v) PLCManager list" where
  "ensure_connection_trace lib m =
     (if \<not> connected m then
        m\<lparr>connected := False\<rparr> # PLCManager_connect_trace lib (m\<lparr>connected := False\<rparr>)
      else
        (case Client_get_connected lib (client m) of
           (alive, c1) \<Rightarrow>
             (if \<not> alive then
                [m\<lparr>client := c1\<rparr>, m\<lparr>client := c1, connected := False\<rparr>]
                  @ PLCManager_connect_trace lib (m\<lparr>client := c1, connected := False\<rparr>)
              else [m\<lparr>client := c1\<rparr>])))"

text \<open>The loop of \<open>read_tags\<close>: the read of each tag; in the \<open>except\<close> clause the
  assignment to \<open>last_error\<close> comes first and \<open>connected = False\<close> after it.\<close>

fun read_loop_trace ::
  "('c, 'v) snap7 \<Rightarrow> ('c, 'v) PLCManager \<Rightarrow> 'v Tag list \<Rightarrow> ('c, 'v) PLCManager list" where
  "read_loop_trace lib m [] = []"
| "read_loop_trace lib m (tag # rest) =
     (case read_one lib tag (client m) of
        (Inl exc, c1) \<Rightarrow>
          [m\<lparr>client := c1\<rparr>,
           m\<lparr>client := c1,
             last_error := Some (''Read error for '' @ tag_name tag @ '': '' @ exc)\<rparr>,
           m\<lparr>client := c1,
             last_error := Some (''Read error for '' @ tag_name tag @ '': '' @ exc),
             connected := False\<rparr>]
      | (Inr v, c1) \<Rightarrow> m\<lparr>client := c1\<rparr> # read_loop_trace lib (m\<lparr>client := c1\<rparr>) rest)"

definition read_tags_trace ::
  "('c, 'v) snap7 \<Rightarrow> ('c, 'v) PLCManager \<Rightarrow> ('c, 'v) PLCManager list" where
  "read_tags_trace lib m =
     ensure_connection_trace lib m @
       (case ensure_connection lib m of
          (ok, m1) \<Rightarrow> if \<not> ok then [] else read_loop_trace lib m1 (tags m1))"

text \<open>The states of the manager that a reader in another thread can see while a run of
  operations goes on: the states between the operations and the states inside them.\<close>

fun op_trace :: "('c, 'v) snap7 \<Rightarrow> ('c, 'v) PLCManager \<Rightarrow> manager_op \<Rightarrow> ('c, 'v) PLCManager list" where
  "op_trace lib m OpConnect = PLCManager_connect_trace lib m"
| "op_trace lib m OpEnsureConnection = ensure_connection_trace lib m"
| "op_trace lib m OpReadTags = read_tags_trace lib m"

fun visible_states ::
  "('c, 'v) snap7 \<Rightarrow> ('c, 'v) PLCManager \<Rightarrow> manager_op list \<Rightarrow> ('c, 'v) PLCManager list" where
  "visible_states lib m [] = [m]"
| "visible_states lib m (x # xs) = m # op_trace lib m x @ visible_states lib (run_op lib m x) xs"

text \<open>Two states that a reader can see while the demo manager polls the five signals:
  inside the \<open>except\<close> clause of \<open>read_tags\<close>, after the error of the third signal is
  recorded and before the flag is cleared; and inside the \<open>connect\<close> of the next cycle,
  after the flag is set and before the error is cleared.\<close>

definition demo_mid_read :: "(bool, int) PLCManager" where
  "demo_mid_read =
     visible_states demo_lib (demo_manager demo_five_tags) [OpEnsureConnection, OpReadTags] ! 11"

definition demo_mid_connect :: "(bool, int) PLCManager" where
  "demo_mid_connect =
     visible_states demo_lib (demo_manager demo_five_tags) [OpReadTags, OpReadTags] ! 15"

section \<open>Notions used to state the properties of the endpoints\<close>

text \<open>The text of one device in the status summary, as the specification words it, with
  the words of the code: \<open>verbunden\<close> for a connected device, the recorded error if
  there is one and it is not empty, \<open>nicht verbunden\<close> otherwise.\<close>

definition status_text :: "('c, 'v) PLCManager \<Rightarrow> string" where
  "status_text m =
     name m @ '': '' @
       (if connected m then ''verbunden''
        else (case last_error m of
                None \<Rightarrow> ''nicht verbunden''
              | Some e \<Rightarrow> if e = [] then ''nicht verbunden'' else e))"

text \<open>Two devices: \<open>dev1\<close> connected, \<open>dev2\<close> disconnected with the error \<open>timeout\<close>.\<close>

definition demo_two_devices :: "(bool, int) PLCManager list" where
  "demo_two_devices =
     [demo_connected [],
      (demo_manager [])\<lparr>name := ''dev2'', last_error := Some ''timeout''\<rparr>]"

section \<open>Properties of the store\<close>

lemma deque_append_lastn:
  "length d \<le> n \<Longrightarrow> deque_append (int n) d x = lastn n (d @ [x])"
  by (cases d) (auto simp: deque_append_def lastn_def Let_def Suc_diff_le)

lemma length_lastn: "length (lastn n xs) \<le> n"
  by (simp add: lastn_def)

lemma lastn_all: "length xs \<le> n \<Longrightarrow> lastn n xs = xs"
  by (simp add: lastn_def)

lemma lastn_append_lastn: "lastn n (lastn n xs @ ys) = lastn n (xs @ ys)"
proof (cases "length xs \<le> n")
  case True
  then show ?thesis by (simp add: lastn_def)
next
  case False
  define j where "j = length xs - n"
  have j: "j \<le> length xs" "length xs - j = n" using False by (simp_all add: j_def)
  have "lastn n (lastn n xs @ ys) = lastn n (drop j (xs @ ys))"
    using j by (simp add: lastn_def j_def)
  also have "\<dots> = drop (length ys + j) (xs @ ys)"
    using j unfolding lastn_def drop_drop by simp
  also have "length ys + j = length (xs @ ys) - n"
    using False by (simp add: j_def)
  finally show ?thesis by (simp only: lastn_def)
qed

lemma list_all_update:
  "list_all P al \<Longrightarrow> P (k, v) \<Longrightarrow> list_all P (AList.update k v al)"
  by (induction al) auto

lemma bounded_store_init: "0 \<le> n \<Longrightarrow> bounded_store (DataBuffer_init n)"
  by (simp add: bounded_store_def DataBuffer_init_def)

lemma history_init: "history (DataBuffer_init n) key = []"
  by (simp add: history_def DataBuffer_init_def)

lemma history_bounded:
  assumes "bounded_store b"
  shows "length (history b key) \<le> nat (maxlen b)"
proof (cases "map_of (data b) key")
  case None
  then show ?thesis by (simp add: history_def)
next
  case (Some dq)
  then have "(key, dq) \<in> set (data b)" by (rule map_of_SomeD)
  with assms have "length dq \<le> nat (maxlen b)"
    by (auto simp: bounded_store_def list_all_iff)
  with Some show ?thesis by (simp add: history_def)
qed

text \<open>One append on a bounded store never raises, keeps the store bounded, and changes
  the history of its key only.\<close>

lemma append_ok:
  assumes "bounded_store b"
  shows "\<exists>b'. DataBuffer_append b key t v = Inr b' \<and> maxlen b' = maxlen b \<and> bounded_store b'
           \<and> (\<forall>k. history b' k =
                  (if k = key then lastn (nat (maxlen b)) (history b key @ [(t, v)])
                   else history b k))"
proof -
  from assms have m: "0 \<le> maxlen b"
    and all: "list_all (\<lambda>(k, dq). length dq \<le> nat (maxlen b)) (data b)"
    by (simp_all add: bounded_store_def)
  have len: "length (history b key) \<le> nat (maxlen b)"
    by (rule history_bounded [OF assms])
  have da: "deque_append (maxlen b) (history b key) (t, v)
              = lastn (nat (maxlen b)) (history b key @ [(t, v)])"
    using deque_append_lastn [OF len, of "(t, v)"] m by simp
  show ?thesis
  proof (cases "map_of (data b) key")
    case None
    with m da show ?thesis
      by (auto simp: DataBuffer_append_def defaultdict_getitem_def deque_new_def history_def
          update_conv' bounded_store_def list_all_update length_lastn all)
  next
    case (Some dq)
    with m da show ?thesis
      by (auto simp: DataBuffer_append_def defaultdict_getitem_def deque_new_def history_def
          update_conv' bounded_store_def list_all_update length_lastn all)
  qed
qed

text \<open>A run of appends on a bounded store: every key holds the last \<open>maxlen\<close> samples of
  what it held before followed by what the run sent to it.\<close>

lemma append_all_ok:
  "bounded_store b \<Longrightarrow>
   \<exists>b'. append_all b ops = Inr b' \<and> maxlen b' = maxlen b \<and> bounded_store b'
        \<and> (\<forall>k. history b' k = lastn (nat (maxlen b)) (history b k @ samples_of k ops))"
proof (induction ops arbitrary: b)
  case Nil
  then show ?case by (simp add: samples_of_def lastn_all history_bounded)
next
  case (Cons op ops)
  obtain key t v where op: "op = (key, t, v)" by (cases op)
  from append_ok [OF Cons.prems, of key t v] obtain b1 where
    b1: "DataBuffer_append b key t v = Inr b1" "maxlen b1 = maxlen b" "bounded_store b1"
    and h1: "\<And>k. history b1 k =
                (if k = key then lastn (nat (maxlen b)) (history b key @ [(t, v)])
                 else history b k)"
    by blast
  from Cons.IH [OF b1(3)] obtain b2 where
    b2: "append_all b1 ops = Inr b2" "maxlen b2 = maxlen b1" "bounded_store b2"
    and h2: "\<And>k. history b2 k = lastn (nat (maxlen b1)) (history b1 k @ samples_of k ops)"
    by blast
  have "history b2 k = lastn (nat (maxlen b)) (history b k @ samples_of k (op # ops))" for k
    using h2 [of k] h1 [of k] b1(2) by (simp add: op samples_of_def lastn_append_lastn)
  with b1 b2 show ?case by (simp add: op)
qed

text \<open>The comprehension of \<open>snapshot\<close>: the store comes back as it went in, and the result
  holds, for each requested key, what the store holds for it.\<close>

lemma snapshot_loop_spec:
  "snapshot_loop d keys res = (res', d') \<Longrightarrow>
   d' = d \<and> map_of res' k =
     (if k \<in> set keys then Some (case map_of d k of None \<Rightarrow> [] | Some v \<Rightarrow> v)
      else map_of res k)"
  by (induction keys arbitrary: res) (auto simp: dict_get_def update_conv' split: option.splits)

lemma snapshot_lookup:
  "map_of (fst (DataBuffer_snapshot b keys)) k =
     (if k \<in> set keys then Some (history b k) else None)"
proof -
  obtain res d' where r: "snapshot_loop (data b) keys [] = (res, d')"
    by (cases "snapshot_loop (data b) keys []")
  from snapshot_loop_spec [OF r, of k] r show ?thesis
    by (simp add: DataBuffer_snapshot_def history_def)
qed

lemma snapshot_store: "snd (DataBuffer_snapshot b keys) = b"
proof -
  obtain res d' where r: "snapshot_loop (data b) keys [] = (res, d')"
    by (cases "snapshot_loop (data b) keys []")
  from snapshot_loop_spec [OF r] r show ?thesis
    by (simp add: DataBuffer_snapshot_def)
qed

text \<open>A key that no append of a run names is not created by the run.\<close>

lemma append_other_key:
  "DataBuffer_append b key t v = Inr b' \<Longrightarrow> k \<noteq> key \<Longrightarrow> map_of (data b') k = map_of (data b) k"
  by (auto simp: DataBuffer_append_def defaultdict_getitem_def deque_new_def update_conv'
      split: option.splits if_splits)

lemma append_all_absent:
  "append_all b ops = Inr b' \<Longrightarrow> samples_of k ops = [] \<Longrightarrow> map_of (data b') k = map_of (data b) k"
proof (induction ops arbitrary: b)
  case Nil
  then show ?case by simp
next
  case (Cons op ops)
  obtain key t v where op: "op = (key, t, v)" by (cases op)
  from Cons.prems(2) have ne: "k \<noteq> key" and rest: "samples_of k ops = []"
    by (auto simp: op samples_of_def split: if_splits)
  from Cons.prems(1) obtain b1 where b1: "DataBuffer_append b key t v = Inr b1"
    and r: "append_all b1 ops = Inr b'"
    by (auto simp: op split: sum.splits)
  from Cons.IH [OF r rest] append_other_key [OF b1 ne] show ?case by simp
qed

text \<open>
  Claim C1. On a store whose deques respect its capacity (every store built by
  \<open>DataBuffer_init\<close> with a capacity that is not negative, and every store that appends
  make of it), a run of appends that sends \<open>capacity + k\<close> samples to a key, in any
  interleaving with appends to other keys, never raises, and a snapshot that asks for
  the key then returns exactly the last \<open>capacity\<close> of these samples, in the order of
  their insertion.
\<close>

theorem snapshot_last_capacity:
  assumes "bounded_store b"
    and "length (samples_of key ops) = nat (maxlen b) + k"
    and "key \<in> set keys"
  shows "\<exists>b'. append_all b ops = Inr b'
           \<and> map_of (fst (DataBuffer_snapshot b' keys)) key = Some (drop k (samples_of key ops))
           \<and> length (drop k (samples_of key ops)) = nat (maxlen b)"
proof -
  from append_all_ok [OF assms(1), of ops] obtain b' where
    r: "append_all b ops = Inr b'"
    and h: "\<And>k. history b' k = lastn (nat (maxlen b)) (history b k @ samples_of k ops)"
    by blast
  have "lastn (nat (maxlen b)) (history b key @ samples_of key ops) = drop k (samples_of key ops)"
    using assms(2) by (simp add: lastn_def)
  with h [of key] have "history b' key = drop k (samples_of key ops)" by simp
  with r assms(2,3) show ?thesis by (simp add: snapshot_lookup)
qed

theorem snapshot_last_capacity_witness:
  "bounded_store (DataBuffer_init 3 :: (int, int) DataBuffer)
   \<and> (\<exists>b'. append_all (DataBuffer_init 3)
             [(''A.x'', 1, 10), (''A.x'', 2, 20), (''B.y'', 2, 7), (''A.x'', 3, 30), (''A.x'', 4, 40)]
           = Inr b'
         \<and> map_of (fst (DataBuffer_snapshot b' [''A.x''])) ''A.x''
           = Some [(2 :: int, 20 :: int), (3, 30), (4, 40)])"
  using snapshot_last_capacity [of "DataBuffer_init 3 :: (int, int) DataBuffer" "''A.x''"
      "[(''A.x'', 1, 10), (''A.x'', 2, 20), (''B.y'', 2, 7), (''A.x'', 3, 30), (''A.x'', 4, 40)]"
      1 "[''A.x'']"]
  by (simp add: bounded_store_def DataBuffer_init_def samples_of_def)

text \<open>The scenario of the specification, run on the model: capacity 3, four appends to
  \<open>A.x\<close>, then \<open>snapshot(["A.x"])\<close>.\<close>

lemma snapshot_scenario:
  "\<exists>b. append_all (DataBuffer_init 3)
         [(''A.x'', 1 :: int, 10 :: int), (''A.x'', 2, 20), (''A.x'', 3, 30), (''A.x'', 4, 40)] = Inr b
       \<and> fst (DataBuffer_snapshot b [''A.x'']) = [(''A.x'', [(2, 20), (3, 30), (4, 40)])]"
  by (simp add: DataBuffer_init_def DataBuffer_append_def defaultdict_getitem_def deque_new_def
      deque_append_def DataBuffer_snapshot_def dict_get_def)

text \<open>By contrast, subscripting the \<open>defaultdict\<close> with a missing key creates the key;
  \<open>snapshot\<close> reads with \<open>get\<close> and so does not.\<close>

lemma getitem_creates_key:
  "0 \<le> n \<Longrightarrow> map_of d key = None \<Longrightarrow>
   defaultdict_getitem n d key = Inr ([], AList.update key [] d)"
  by (simp add: defaultdict_getitem_def deque_new_def)

lemma snapshot_loop_exact:
  "distinct (map fst res @ keys) \<Longrightarrow>
   fst (snapshot_loop d keys res)
     = res @ map (\<lambda>k. (k, case map_of d k of None \<Rightarrow> [] | Some v \<Rightarrow> v)) keys"
proof (induction keys arbitrary: res)
  case Nil
  then show ?case by simp
next
  case (Cons key keys)
  let ?v = "case map_of d key of None \<Rightarrow> [] | Some v \<Rightarrow> v"
  from Cons.prems have "key \<notin> fst ` set res" by auto
  then have u: "AList.update key ?v res = res @ [(key, ?v)]"
    by (induction res) auto
  from Cons.prems have "distinct (map fst (res @ [(key, ?v)]) @ keys)" by auto
  from Cons.IH [OF this] u show ?case
    by (simp add: dict_get_def split: option.splits)
qed

lemma snapshot_exact:
  "distinct keys \<Longrightarrow>
   fst (DataBuffer_snapshot b keys) = map (\<lambda>k. (k, history b k)) keys"
proof -
  assume "distinct keys"
  then have "distinct (map fst [] @ keys)" by simp
  from snapshot_loop_exact [OF this, of "data b"]
  have "fst (snapshot_loop (data b) keys []) = map (\<lambda>k. (k, history b k)) keys"
    by (simp add: history_def)
  then show ?thesis
    by (cases "snapshot_loop (data b) keys []") (simp add: DataBuffer_snapshot_def)
qed

text \<open>
  Claim C5. A key that has never been appended to (it is absent from a store, and no
  append of the run that follows names it) is present in the result of every snapshot
  that asks for it, with the empty sequence as its value, while every requested key
  that the store holds is returned with its history, and no other key is returned;
  when the requested keys are distinct the result is exactly the list of the requested
  keys, each with its history or with the empty sequence, so that a query for \<open>A.x\<close>
  and \<open>B.y\<close> where only \<open>A.x\<close> has history returns \<open>{A.x: history, B.y: []}\<close>.
  \<open>DataBuffer_snapshot\<close> has no error result: it returns for every store and every
  list of keys.
\<close>

theorem snapshot_never_appended:
  assumes "map_of (data b0) key = None"
    and "append_all b0 ops = Inr b"
    and "samples_of key ops = []"
    and "key \<in> set keys"
  shows "map_of (fst (DataBuffer_snapshot b keys)) key = Some []
       \<and> (\<forall>k h. k \<in> set keys \<longrightarrow> map_of (data b) k = Some h
             \<longrightarrow> map_of (fst (DataBuffer_snapshot b keys)) k = Some h)
       \<and> (\<forall>k. k \<notin> set keys \<longrightarrow> map_of (fst (DataBuffer_snapshot b keys)) k = None)
       \<and> (distinct keys \<longrightarrow>
            fst (DataBuffer_snapshot b keys)
              = map (\<lambda>k. (k, case map_of (data b) k of None \<Rightarrow> [] | Some h \<Rightarrow> h)) keys)"
proof (intro conjI allI impI)
  from append_all_absent [OF assms(2,3)] assms(1) have "map_of (data b) key = None"
    by simp
  then have "history b key = []" by (simp add: history_def)
  with assms(4) show "map_of (fst (DataBuffer_snapshot b keys)) key = Some []"
    by (simp add: snapshot_lookup)
next
  fix k h
  assume "k \<in> set keys" and "map_of (data b) k = Some h"
  then show "map_of (fst (DataBuffer_snapshot b keys)) k = Some h"
    by (simp add: snapshot_lookup history_def)
next
  fix k
  assume "k \<notin> set keys"
  then show "map_of (fst (DataBuffer_snapshot b keys)) k = None"
    by (simp add: snapshot_lookup)
next
  assume "distinct keys"
  from snapshot_exact [OF this, of b]
  show "fst (DataBuffer_snapshot b keys)
          = map (\<lambda>k. (k, case map_of (data b) k of None \<Rightarrow> [] | Some h \<Rightarrow> h)) keys"
    by (simp add: history_def)
qed

theorem snapshot_never_appended_witness:
  "map_of (data (DataBuffer_init 3 :: (int, int) DataBuffer)) ''B.y'' = None
   \<and> append_all (DataBuffer_init 3) [(''A.x'', 1, 10), (''A.x'', 2, 20)]
       = Inr \<lparr>maxlen = 3, data = [(''A.x'', [(1 :: int, 10 :: int), (2, 20)])]\<rparr>
   \<and> samples_of ''B.y'' [(''A.x'', 1 :: int, 10 :: int), (''A.x'', 2, 20)] = []
   \<and> fst (DataBuffer_snapshot \<lparr>maxlen = 3, data = [(''A.x'', [(1 :: int, 10 :: int), (2, 20)])]\<rparr>
            [''A.x'', ''B.y''])
       = [(''A.x'', [(1, 10), (2, 20)]), (''B.y'', [])]"
proof -
  let ?b = "\<lparr>maxlen = 3, data = [(''A.x'', [(1 :: int, 10 :: int), (2, 20)])]\<rparr>"
  have a: "map_of (data (DataBuffer_init 3 :: (int, int) DataBuffer)) ''B.y'' = None"
    by (simp add: DataBuffer_init_def)
  have r: "append_all (DataBuffer_init 3) [(''A.x'', 1, 10), (''A.x'', 2, 20)] = Inr ?b"
    by (simp add: DataBuffer_init_def DataBuffer_append_def defaultdict_getitem_def
        deque_new_def deque_append_def)
  have n: "samples_of ''B.y'' [(''A.x'', 1 :: int, 10 :: int), (''A.x'', 2, 20)] = []"
    by (simp add: samples_of_def)
  have k: "''B.y'' \<in> set [''A.x'', ''B.y'']" by simp
  have d: "distinct [''A.x'', ''B.y'']" by simp
  from snapshot_never_appended [OF a r n k, THEN conjunct2, THEN conjunct2, THEN conjunct2,
      rule_format, OF d]
  have "fst (DataBuffer_snapshot ?b [''A.x'', ''B.y''])
          = [(''A.x'', [(1, 10), (2, 20)]), (''B.y'', [])]"
    by simp
  with a r n show ?thesis by simp
qed

text \<open>The scenario of the specification: a query for \<open>A.x\<close> and \<open>B.y\<close> on a store where
  only \<open>A.x\<close> has history.\<close>

lemma snapshot_two_keys_scenario:
  "map_of (data b) ''A.x'' = Some h \<Longrightarrow> map_of (data b) ''B.y'' = None \<Longrightarrow>
   fst (DataBuffer_snapshot b [''A.x'', ''B.y'']) = [(''A.x'', h), (''B.y'', [])]"
  by (simp add: DataBuffer_snapshot_def dict_get_def)

text \<open>
  Claim C9. \<open>snapshot\<close> leaves the store as it found it: for every store and every list
  of requested keys, also keys the store does not hold, the store after the call is the
  store before it (the same capacity, the same keys in the same order, the same
  deques).
\<close>

theorem snapshot_leaves_store:
  "snd (DataBuffer_snapshot b keys) = b
   \<and> map fst (data (snd (DataBuffer_snapshot b keys))) = map fst (data b)"
proof -
  obtain res d' where r: "snapshot_loop (data b) keys [] = (res, d')"
    by (cases "snapshot_loop (data b) keys []")
  from snapshot_loop_spec [OF r] have "d' = data b" by simp
  with r have "snd (DataBuffer_snapshot b keys) = b"
    by (simp add: DataBuffer_snapshot_def)
  then show ?thesis by simp
qed

section \<open>Properties of the connection manager\<close>

lemma connect_result:
  "\<not> connected m \<Longrightarrow>
   consistent (PLCManager_connect lib m)
   \<and> tags (PLCManager_connect lib m) = tags m
   \<and> name (PLCManager_connect lib m) = name m"
  by (auto simp: PLCManager_connect_def consistent_def split: prod.splits option.splits)

lemma connect_consistent: "consistent m \<Longrightarrow> consistent (PLCManager_connect lib m)"
proof (cases "connected m")
  case True
  assume "consistent m"
  with True show ?thesis by (simp add: PLCManager_connect_def)
next
  case False
  then show ?thesis by (simp add: connect_result)
qed

lemma ensure_consistent:
  "consistent m \<Longrightarrow> consistent (snd (ensure_connection lib m))"
proof (cases "connected m")
  case False
  then have "\<not> connected (m\<lparr>connected := False\<rparr>)" by simp
  from connect_result [OF this, of lib] False show ?thesis
    by (simp add: ensure_connection_def Let_def)
next
  case True
  assume c: "consistent m"
  obtain alive c1 where g: "Client_get_connected lib (client m) = (alive, c1)"
    by (cases "Client_get_connected lib (client m)")
  show ?thesis
  proof (cases alive)
    case True
    with \<open>connected m\<close> c g show ?thesis
      by (simp add: ensure_connection_def consistent_def)
  next
    case False
    have "\<not> connected (m\<lparr>client := c1, connected := False\<rparr>)" by simp
    from connect_result [OF this, of lib] False \<open>connected m\<close> g show ?thesis
      by (simp add: ensure_connection_def Let_def)
  qed
qed

lemma ensure_fields:
  "tags (snd (ensure_connection lib m)) = tags m \<and> name (snd (ensure_connection lib m)) = name m"
  by (auto simp: ensure_connection_def PLCManager_connect_def Let_def
      split: prod.splits option.splits)

lemma ensure_flag:
  "ensure_connection lib m = (ok, m1) \<Longrightarrow> connected m1 = ok"
  by (auto simp: ensure_connection_def Let_def split: prod.splits if_splits)

lemma read_loop_consistent:
  "consistent m \<Longrightarrow> consistent (snd (read_loop lib m ts vals))"
proof (induction ts arbitrary: m vals)
  case Nil
  then show ?case by simp
next
  case (Cons t ts)
  obtain r c1 where r: "read_one lib t (client m) = (r, c1)"
    by (cases "read_one lib t (client m)")
  show ?case
  proof (cases r)
    case (Inl exc)
    with r show ?thesis by (simp add: consistent_def)
  next
    case (Inr v)
    from Cons.prems have "consistent (m\<lparr>client := c1\<rparr>)" by (simp add: consistent_def)
    from Cons.IH [OF this] r Inr show ?thesis by simp
  qed
qed

lemma read_tags_consistent:
  "consistent m \<Longrightarrow> consistent (snd (read_tags lib m))"
proof -
  assume c: "consistent m"
  obtain ok m1 where e: "ensure_connection lib m = (ok, m1)"
    by (cases "ensure_connection lib m")
  from ensure_consistent [OF c, of lib] e have c1: "consistent m1" by simp
  from read_loop_consistent [OF c1] e c1 show ?thesis
    by (simp add: read_tags_def)
qed

lemma run_ops_consistent:
  "consistent m \<Longrightarrow> consistent (run_ops lib m ops)"
proof (induction ops arbitrary: m)
  case Nil
  then show ?case by simp
next
  case (Cons x xs)
  from Cons.prems have "consistent (run_op lib m x)"
    by (cases x) (simp_all add: connect_consistent ensure_consistent read_tags_consistent)
  then show ?case using Cons.IH by simp
qed

lemma read_one_calls:
  "read_one lib t cl = (r, c') \<Longrightarrow> calls c' = calls cl @ [read_call t]"
  by (auto simp: read_one_def Client_db_read_def read_call_def split: prod.splits sum.splits)

lemma read_prefix_calls:
  "read_prefix lib cl pre = Some (kvs, c1) \<Longrightarrow>
   calls c1 = calls cl @ map read_call pre \<and> map fst kvs = map tag_name pre"
proof (induction pre arbitrary: cl kvs)
  case Nil
  then show ?case by simp
next
  case (Cons t ts)
  from Cons.prems obtain v c' kvs' where
    r: "read_one lib t cl = (Inr v, c')"
    and p: "read_prefix lib c' ts = Some (kvs', c1)"
    and k: "kvs = (tag_name t, v) # kvs'"
    by (auto split: prod.splits sum.splits option.splits)
  from Cons.IH [OF p] read_one_calls [OF r] k show ?case by simp
qed

text \<open>While the descriptors read without an exception, the loop of \<open>read_tags\<close> assigns
  their values in order and goes on with the rest.\<close>

lemma read_loop_prefix:
  "read_prefix lib (client m) pre = Some (kvs, c1) \<Longrightarrow>
   read_loop lib m (pre @ rest) vals
     = read_loop lib (m\<lparr>client := c1\<rparr>) rest (fold (\<lambda>(k, v). AList.update k v) kvs vals)"
proof (induction pre arbitrary: m kvs vals)
  case Nil
  then have "kvs = []" and "m\<lparr>client := c1\<rparr> = m" by auto
  then show ?case by simp
next
  case (Cons t ts)
  from Cons.prems obtain v c' kvs' where
    r: "read_one lib t (client m) = (Inr v, c')"
    and p: "read_prefix lib c' ts = Some (kvs', c1)"
    and k: "kvs = (tag_name t, v) # kvs'"
    by (auto split: prod.splits sum.splits option.splits)
  from p have "read_prefix lib (client (m\<lparr>client := c'\<rparr>)) ts = Some (kvs', c1)" by simp
  from Cons.IH [OF this] r k show ?case by simp
qed

text \<open>Either every descriptor reads, or there is a first one that does not.\<close>

lemma read_prefix_first_failure:
  "read_prefix lib cl ts = None \<Longrightarrow>
   \<exists>pre t post kvs c1 exc c2. ts = pre @ t # post
      \<and> read_prefix lib cl pre = Some (kvs, c1) \<and> read_one lib t c1 = (Inl exc, c2)"
proof (induction ts arbitrary: cl)
  case Nil
  then show ?case by simp
next
  case (Cons t ts)
  obtain r c' where r: "read_one lib t cl = (r, c')" by (cases "read_one lib t cl")
  show ?case
  proof (cases r)
    case (Inl exc)
    with r have "t # ts = [] @ t # ts \<and> read_prefix lib cl [] = Some ([], cl)
        \<and> read_one lib t cl = (Inl exc, c')" by simp
    then show ?thesis by blast
  next
    case (Inr v)
    with r Cons.prems have "read_prefix lib c' ts = None"
      by (auto split: option.splits)
    from Cons.IH [OF this] obtain pre u post kvs c1 exc c2 where
      d: "ts = pre @ u # post" "read_prefix lib c' pre = Some (kvs, c1)"
         "read_one lib u c1 = (Inl exc, c2)" by blast
    with r Inr have "t # ts = (t # pre) @ u # post
        \<and> read_prefix lib cl (t # pre) = Some ((tag_name t, v) # kvs, c1)
        \<and> read_one lib u c1 = (Inl exc, c2)" by simp
    then show ?thesis by blast
  qed
qed

text \<open>The cycle when the descriptors before \<open>t\<close> read and \<open>t\<close> raises.\<close>

lemma read_tags_at_failure:
  assumes e: "ensure_connection lib m = (True, m1)"
    and ts: "tags m1 = pre @ t # post"
    and p: "read_prefix lib (client m1) pre = Some (kvs, c1)"
    and r: "read_one lib t c1 = (Inl exc, c2)"
  shows "read_tags lib m =
           (dict_of kvs,
            m1\<lparr>client := c2,
               last_error := Some (''Read error for '' @ tag_name t @ '': '' @ exc),
               connected := False\<rparr>)"
proof -
  have "read_tags lib m = read_loop lib m1 (pre @ t # post) []"
    using e ts by (simp add: read_tags_def)
  also have "\<dots> = read_loop lib (m1\<lparr>client := c1\<rparr>) (t # post) (dict_of kvs)"
    using read_loop_prefix [OF p, of "t # post" "[]"] by (simp add: dict_of_def)
  finally show ?thesis using r by simp
qed

lemma read_tags_all_read:
  assumes e: "ensure_connection lib m = (True, m1)"
    and p: "read_prefix lib (client m1) (tags m1) = Some (kvs, c1)"
  shows "read_tags lib m = (dict_of kvs, m1\<lparr>client := c1\<rparr>)"
proof -
  have "read_tags lib m = read_loop lib m1 (tags m1 @ []) []"
    using e by (simp add: read_tags_def)
  also have "\<dots> = read_loop lib (m1\<lparr>client := c1\<rparr>) [] (dict_of kvs)"
    using read_loop_prefix [OF p, of "[]" "[]"] by (simp only: dict_of_def)
  finally show ?thesis by simp
qed

text \<open>
  Claim C2. \<open>read_tags\<close> returns the dictionary of a prefix of the descriptor list, read
  in the declared order. When \<open>_ensure_connection\<close> fails the dictionary is empty. When
  the descriptors \<open>pre\<close> read and the next one, \<open>t\<close> (the j-th, with j - 1 the length
  of \<open>pre\<close>), raises in its read or its decoding, the result holds exactly the values of
  \<open>pre\<close>, the error is recorded, the manager is disconnected, and the client has been
  asked for the blocks of \<open>pre\<close> and \<open>t\<close> and for no block of the descriptors after
  \<open>t\<close>. When every descriptor reads, the result holds all of them.
\<close>

theorem read_tags_fail_fast:
  assumes "ensure_connection lib m = (ok, m1)"
  shows "(\<not> ok \<longrightarrow> read_tags lib m = ([], m1))
       \<and> (\<forall>pre t post kvs c1 exc c2.
             ok \<longrightarrow> tags m1 = pre @ t # post
             \<longrightarrow> read_prefix lib (client m1) pre = Some (kvs, c1)
             \<longrightarrow> read_one lib t c1 = (Inl exc, c2)
             \<longrightarrow> read_tags lib m =
                   (dict_of kvs,
                    m1\<lparr>client := c2,
                       last_error := Some (''Read error for '' @ tag_name t @ '': '' @ exc),
                       connected := False\<rparr>)
                 \<and> map fst kvs = map tag_name pre
                 \<and> calls c2 = calls (client m1) @ map read_call (pre @ [t]))
       \<and> (\<forall>kvs c1.
             ok \<longrightarrow> read_prefix lib (client m1) (tags m1) = Some (kvs, c1)
             \<longrightarrow> read_tags lib m = (dict_of kvs, m1\<lparr>client := c1\<rparr>)
                 \<and> map fst kvs = map tag_name (tags m1))"
proof (intro conjI allI impI)
  assume "\<not> ok"
  with assms show "read_tags lib m = ([], m1)" by (simp add: read_tags_def)
next
  fix pre t post kvs c1 exc c2
  assume ok and ts: "tags m1 = pre @ t # post"
    and p: "read_prefix lib (client m1) pre = Some (kvs, c1)"
    and r: "read_one lib t c1 = (Inl exc, c2)"
  from assms \<open>ok\<close> have e: "ensure_connection lib m = (True, m1)" by simp
  show "read_tags lib m =
          (dict_of kvs,
           m1\<lparr>client := c2,
              last_error := Some (''Read error for '' @ tag_name t @ '': '' @ exc),
              connected := False\<rparr>)"
    by (rule read_tags_at_failure [OF e ts p r])
  show "map fst kvs = map tag_name pre"
    using read_prefix_calls [OF p] by simp
  show "calls c2 = calls (client m1) @ map read_call (pre @ [t])"
    using read_prefix_calls [OF p] read_one_calls [OF r] by simp
next
  fix kvs c1
  assume ok and p: "read_prefix lib (client m1) (tags m1) = Some (kvs, c1)"
  from assms \<open>ok\<close> have e: "ensure_connection lib m = (True, m1)" by simp
  show "read_tags lib m = (dict_of kvs, m1\<lparr>client := c1\<rparr>)"
    by (rule read_tags_all_read [OF e p])
  show "map fst kvs = map tag_name (tags m1)"
    using read_prefix_calls [OF p] by simp
qed

lemmas demo_simps =
  demo_lib_def demo_manager_def demo_connected_def demo_tag_def demo_five_tags_def
  PLCManager_init_def PLCManager_connect_def ensure_connection_def
  Client_connect_def Client_get_connected_def Client_db_read_def
  read_one_def parse_value_def lower_def lower_char_def read_tags_def dict_of_def

lemma demo_ensure:
  "ensure_connection demo_lib (demo_manager tgs) = (True, demo_connected tgs)"
  by (simp add: demo_simps)

theorem read_tags_fail_fast_witness:
  "ensure_connection demo_lib (demo_manager demo_five_tags) = (True, demo_connected demo_five_tags)
   \<and> fst (read_tags demo_lib (demo_manager demo_five_tags)) = [(''s1'', 4), (''s2'', 2)]
   \<and> \<not> connected (snd (read_tags demo_lib (demo_manager demo_five_tags)))
   \<and> last_error (snd (read_tags demo_lib (demo_manager demo_five_tags)))
       = Some ''Read error for s3: timeout''"
proof -
  let ?c0 = "\<lparr>session = True, calls = [CallConnect ''192.168.0.10'' 0 1, CallGetConnected]\<rparr>"
  let ?c1 = "\<lparr>session = True,
              calls = [CallConnect ''192.168.0.10'' 0 1, CallGetConnected,
                       CallDbRead 1 0 4, CallDbRead 1 0 2]\<rparr>"
  let ?c2 = "\<lparr>session = False,
              calls = [CallConnect ''192.168.0.10'' 0 1, CallGetConnected,
                       CallDbRead 1 0 4, CallDbRead 1 0 2, CallDbRead 99 0 4]\<rparr>"
  have ts: "tags (demo_connected demo_five_tags)
            = [demo_tag ''s1'' 1 4 ''real'', demo_tag ''s2'' 1 2 ''int'']
              @ demo_tag ''s3'' 99 4 ''real''
              # [demo_tag ''s4'' 2 4 ''DINT'', demo_tag ''s5'' 2 1 ''bool'']"
    by (simp add: demo_connected_def demo_manager_def PLCManager_init_def demo_five_tags_def)
  have p: "read_prefix demo_lib (client (demo_connected demo_five_tags))
             [demo_tag ''s1'' 1 4 ''real'', demo_tag ''s2'' 1 2 ''int'']
           = Some ([(''s1'', 4), (''s2'', 2)], ?c1)"
    by (simp add: demo_simps)
  have r: "read_one demo_lib (demo_tag ''s3'' 99 4 ''real'') ?c1 = (Inl ''timeout'', ?c2)"
    by (simp add: demo_simps)
  from read_tags_fail_fast [OF demo_ensure [of demo_five_tags], THEN conjunct2, THEN conjunct1,
      rule_format, OF TrueI ts p r]
  have "read_tags demo_lib (demo_manager demo_five_tags) =
          (dict_of [(''s1'', 4), (''s2'', 2)],
           (demo_connected demo_five_tags)
             \<lparr>client := ?c2, last_error := Some ''Read error for s3: timeout'',
              connected := False\<rparr>)"
    by (simp add: demo_tag_def)
  then show ?thesis by (simp add: demo_ensure dict_of_def)
qed

text \<open>
  Claim C3. When a call of \<open>_ensure_connection\<close> has returned true and the session of the
  client reports alive, a second call returns true as well and makes no connection
  attempt: the only call it makes on the client is \<open>get_connected\<close>, and the flag and
  the recorded error are as the first call left them.
\<close>

theorem ensure_connection_idempotent:
  assumes "ensure_connection lib m = (True, m1)"
    and "fst (client_get_connected lib (session (client m1)))"
  shows "\<exists>m2. ensure_connection lib m1 = (True, m2)
           \<and> connect_attempts (client m2) = connect_attempts (client m1)
           \<and> calls (client m2) = calls (client m1) @ [CallGetConnected]
           \<and> m2 = m1\<lparr>client := client m2\<rparr>"
proof -
  from ensure_flag [OF assms(1)] have c: "connected m1" by simp
  obtain s where g: "client_get_connected lib (session (client m1)) = (True, s)"
    using assms(2) by (cases "client_get_connected lib (session (client m1))") simp
  let ?c = "\<lparr>session = s, calls = calls (client m1) @ [CallGetConnected]\<rparr>"
  have "ensure_connection lib m1 = (True, m1\<lparr>client := ?c\<rparr>)"
    using c g by (simp add: ensure_connection_def Client_get_connected_def)
  then show ?thesis by (simp add: connect_attempts_def)
qed

theorem ensure_connection_idempotent_witness:
  "ensure_connection demo_lib (demo_manager []) = (True, demo_connected [])
   \<and> fst (client_get_connected demo_lib (session (client (demo_connected []))))
   \<and> connect_attempts (client (demo_connected [])) = 1
   \<and> (\<exists>m2. ensure_connection demo_lib (demo_connected []) = (True, m2)
         \<and> connect_attempts (client m2) = 1
         \<and> calls (client m2) = [CallConnect ''192.168.0.10'' 0 1, CallGetConnected, CallGetConnected])"
proof -
  have a: "fst (client_get_connected demo_lib (session (client (demo_connected []))))"
    by (simp add: demo_simps)
  have n: "connect_attempts (client (demo_connected [])) = 1"
    by (simp add: demo_simps connect_attempts_def)
  have k: "calls (client (demo_connected [])) = [CallConnect ''192.168.0.10'' 0 1, CallGetConnected]"
    by (simp add: demo_simps)
  from ensure_connection_idempotent [OF demo_ensure [of "[]"] a] obtain m2 where
    "ensure_connection demo_lib (demo_connected []) = (True, m2)"
    "connect_attempts (client m2) = connect_attempts (client (demo_connected []))"
    "calls (client m2) = calls (client (demo_connected [])) @ [CallGetConnected]"
    by blast
  with n k have "ensure_connection demo_lib (demo_connected []) = (True, m2)
         \<and> connect_attempts (client m2) = 1
         \<and> calls (client m2) = [CallConnect ''192.168.0.10'' 0 1, CallGetConnected, CallGetConnected]"
    by simp
  then have "\<exists>m2. ensure_connection demo_lib (demo_connected []) = (True, m2)
         \<and> connect_attempts (client m2) = 1
         \<and> calls (client m2) = [CallConnect ''192.168.0.10'' 0 1, CallGetConnected, CallGetConnected]"
    by blast
  with demo_ensure [of "[]"] a n show ?thesis by simp
qed

text \<open>When the session no longer reports alive, the second call does try to connect
  again: the absence of an attempt depends on the session, not on the flag alone.\<close>

lemma ensure_connection_reconnects:
  assumes "connected m" and "\<not> fst (client_get_connected lib (session (client m)))"
  shows "connect_attempts (client (snd (ensure_connection lib m)))
           = connect_attempts (client m) + 1"
proof -
  obtain s where g: "client_get_connected lib (session (client m)) = (False, s)"
    using assms(2) by (cases "client_get_connected lib (session (client m))") simp
  with assms(1) show ?thesis
    by (auto simp: ensure_connection_def Client_get_connected_def PLCManager_connect_def
        Client_connect_def connect_attempts_def Let_def split: prod.splits option.splits)
qed

lemma connect_trace_last:
  "last (m # PLCManager_connect_trace lib m) = PLCManager_connect lib m"
  by (auto simp: PLCManager_connect_trace_def PLCManager_connect_def
      split: prod.splits option.splits)

lemma last_prepend: "last (x # y # ys) = last (y # ys)"
  by simp

lemma ensure_trace_last:
  "last (m # ensure_connection_trace lib m) = snd (ensure_connection lib m)"
proof (cases "connected m")
  case False
  then have "last (m # ensure_connection_trace lib m)
      = last (m\<lparr>connected := False\<rparr> # PLCManager_connect_trace lib (m\<lparr>connected := False\<rparr>))"
    by (simp only: ensure_connection_trace_def if_True last_prepend simp_thms)
  also have "\<dots> = PLCManager_connect lib (m\<lparr>connected := False\<rparr>)"
    by (rule connect_trace_last)
  finally show ?thesis using False by (simp add: ensure_connection_def Let_def)
next
  case True
  obtain alive c1 where g: "Client_get_connected lib (client m) = (alive, c1)"
    by (cases "Client_get_connected lib (client m)")
  show ?thesis
  proof (cases alive)
    case True
    with \<open>connected m\<close> g show ?thesis
      by (simp add: ensure_connection_trace_def ensure_connection_def)
  next
    case False
    let ?m2 = "m\<lparr>client := c1, connected := False\<rparr>"
    from False \<open>connected m\<close> g
    have "ensure_connection_trace lib m
            = [m\<lparr>client := c1\<rparr>, ?m2] @ PLCManager_connect_trace lib ?m2"
      by (simp add: ensure_connection_trace_def)
    then have "last (m # ensure_connection_trace lib m)
            = last (?m2 # PLCManager_connect_trace lib ?m2)"
      by (simp only: append_Cons append_Nil last_prepend)
    also have "\<dots> = PLCManager_connect lib ?m2"
      by (rule connect_trace_last)
    finally show ?thesis using False \<open>connected m\<close> g
      by (simp add: ensure_connection_def Let_def)
  qed
qed

lemma read_loop_trace_last:
  "last (m # read_loop_trace lib m ts) = snd (read_loop lib m ts vals)"
proof (induction ts arbitrary: m vals)
  case Nil
  then show ?case by simp
next
  case (Cons t ts)
  obtain r c1 where r: "read_one lib t (client m) = (r, c1)"
    by (cases "read_one lib t (client m)")
  show ?case
  proof (cases r)
    case (Inl exc)
    with r show ?thesis by simp
  next
    case (Inr v)
    with r Cons.IH [of "m\<lparr>client := c1\<rparr>" "AList.update (tag_name t) v vals"]
    show ?thesis by simp
  qed
qed

lemma read_tags_trace_last:
  "last (m # read_tags_trace lib m) = snd (read_tags lib m)"
proof -
  obtain ok m1 where e: "ensure_connection lib m = (ok, m1)"
    by (cases "ensure_connection lib m")
  from ensure_trace_last [of m lib] e
  have l1: "last (m # ensure_connection_trace lib m) = m1" by simp
  show ?thesis
  proof (cases ok)
    case False
    with e l1 show ?thesis by (simp add: read_tags_trace_def read_tags_def)
  next
    case True
    have "last (m # ensure_connection_trace lib m @ read_loop_trace lib m1 (tags m1))
            = last (last (m # ensure_connection_trace lib m) # read_loop_trace lib m1 (tags m1))"
      by (cases "read_loop_trace lib m1 (tags m1)") simp_all
    also have "\<dots> = snd (read_loop lib m1 (tags m1) [])"
      using l1 read_loop_trace_last [of m1 lib "tags m1" "[]"] by simp
    finally show ?thesis using e True by (simp add: read_tags_trace_def read_tags_def)
  qed
qed

lemma op_trace_last: "last (m # op_trace lib m x) = run_op lib m x"
proof (cases x)
  case OpConnect
  then show ?thesis using connect_trace_last [of m lib] by (simp del: last.simps)
next
  case OpEnsureConnection
  then show ?thesis using ensure_trace_last [of m lib] by (simp del: last.simps)
next
  case OpReadTags
  then show ?thesis using read_tags_trace_last [of m lib] by (simp del: last.simps)
qed

lemma visible_states_last: "last (visible_states lib m ops) = run_ops lib m ops"
proof (induction ops arbitrary: m)
  case Nil
  then show ?case by simp
next
  case (Cons x xs)
  have "visible_states lib (run_op lib m x) xs \<noteq> []"
    by (cases xs) simp_all
  then show ?case using Cons.IH [of "run_op lib m x"] by simp
qed

text \<open>
  Claim C10 says that the manager has no error recorded whenever its flag is true, the
  two being written simultaneously, so that the status summary never renders a device
  as connected while an error is recorded for it. The code writes the two fields one
  after the other, and \<open>data\<close> reads them without the manager's lock. In the \<open>except\<close>
  clause of \<open>read_tags\<close> the error is recorded before the flag is cleared; in \<open>connect\<close>
  the flag is set before the error of the last cycle is cleared. In both states, which
  lie inside a run of the demo manager from its construction, the flag is true, an
  error is recorded, and the status summary renders the device as connected.
\<close>

theorem error_recorded_while_connected:
  "connected demo_mid_read
   \<and> last_error demo_mid_read = Some ''Read error for s3: timeout''
   \<and> map_of (fst (data_route (DataBuffer_init 500 :: (int, int) DataBuffer) [demo_mid_read] []))
       ''status'' = Some (JString ''dev1: verbunden'')
   \<and> connected demo_mid_connect
   \<and> last_error demo_mid_connect = Some ''Read error for s3: timeout''
   \<and> map_of (fst (data_route (DataBuffer_init 500 :: (int, int) DataBuffer) [demo_mid_connect] []))
       ''status'' = Some (JString ''dev1: verbunden'')"
proof -
  have r: "connected demo_mid_read"
    "last_error demo_mid_read = Some ''Read error for s3: timeout''"
    "name demo_mid_read = ''dev1''"
    by (simp_all add: demo_mid_read_def demo_simps Let_def
        read_tags_trace_def ensure_connection_trace_def PLCManager_connect_trace_def)
  have c: "connected demo_mid_connect"
    "last_error demo_mid_connect = Some ''Read error for s3: timeout''"
    "name demo_mid_connect = ''dev1''"
    by (simp_all add: demo_mid_connect_def demo_simps Let_def
        read_tags_trace_def ensure_connection_trace_def PLCManager_connect_trace_def)
  from r c show ?thesis
    by (simp add: data_route_def Let_def split: prod.splits)
qed

text \<open>
  Claim C10, amended. Between its operations the manager has no error recorded when its
  flag \<open>connected\<close> is true: this holds at its construction and at the end of every
  run of complete calls of \<open>connect\<close>, \<open>_ensure_connection\<close> and \<open>read_tags\<close> (the
  last of the states that such a run passes through), so an operation that ends with
  the flag set has cleared the error, and an operation that records an error ends with
  the flag cleared. Nothing is said of the states inside an operation.
\<close>

theorem connected_has_no_error:
  "consistent (run_ops lib (PLCManager_init c0 nm ip_addr rack_no slot_no tgs) ops)
   \<and> (last_error (run_ops lib (PLCManager_init c0 nm ip_addr rack_no slot_no tgs) ops) \<noteq> None
        \<longrightarrow> \<not> connected (run_ops lib (PLCManager_init c0 nm ip_addr rack_no slot_no tgs) ops))
   \<and> last (visible_states lib (PLCManager_init c0 nm ip_addr rack_no slot_no tgs) ops)
       = run_ops lib (PLCManager_init c0 nm ip_addr rack_no slot_no tgs) ops"
proof -
  have "consistent (PLCManager_init c0 nm ip_addr rack_no slot_no tgs)"
    by (simp add: consistent_def PLCManager_init_def)
  then have "consistent (run_ops lib (PLCManager_init c0 nm ip_addr rack_no slot_no tgs) ops)"
    by (rule run_ops_consistent)
  then show ?thesis by (auto simp: consistent_def visible_states_last)
qed

theorem connected_has_no_error_witness:
  "connected (run_ops demo_lib (demo_manager demo_five_tags) [OpReadTags, OpEnsureConnection])
   \<and> last_error (run_ops demo_lib (demo_manager demo_five_tags) [OpReadTags, OpEnsureConnection])
       = None
   \<and> last_error (run_ops demo_lib (demo_manager demo_five_tags) [OpReadTags])
       = Some ''Read error for s3: timeout''
   \<and> \<not> connected (run_ops demo_lib (demo_manager demo_five_tags) [OpReadTags])"
proof -
  have e: "last_error (run_ops demo_lib (demo_manager demo_five_tags) [OpReadTags])
             = Some ''Read error for s3: timeout''"
    by (simp add: demo_simps)
  have c: "connected (run_ops demo_lib (demo_manager demo_five_tags) [OpReadTags, OpEnsureConnection])"
    by (simp add: demo_simps Let_def)
  from connected_has_no_error [of demo_lib False "''dev1''" "''192.168.0.10''" 0 1 demo_five_tags
      "[OpReadTags, OpEnsureConnection]"]
    connected_has_no_error [of demo_lib False "''dev1''" "''192.168.0.10''" 0 1 demo_five_tags
      "[OpReadTags]"]
    e c show ?thesis
    by (simp add: consistent_def demo_manager_def)
qed

lemma lower_example: "lower ''DInt'' = ''dint'' \<and> lower ''Real'' = ''real'' \<and> lower ''s_1!'' = ''s_1!''"
  by (simp add: lower_def lower_char_def char_of_def bit_0)

lemma parse_value_upper_case:
  "parse_value demo_lib (demo_tag ''s4'' 2 4 ''DINT'') [0, 0, 0, 0] = Inr 4"
  by (simp add: demo_simps char_of_def bit_0)

lemma append_values_append_all:
  "append_values b n ts kvs = append_all b (map (\<lambda>(k, v). (n @ ''.'' @ k, ts, v)) kvs)"
  by (induction kvs arbitrary: b) (auto split: sum.splits)

text \<open>On a store whose deques respect its capacity, a cycle of the polling thread ends
  without an exception, whatever the client and the decoders do.\<close>

lemma cycle_returns:
  assumes "bounded_store b"
  shows "\<exists>b'. PLCReader_cycle lib ts m b = Inr (snd (read_tags lib m), b') \<and> bounded_store b'"
proof -
  obtain vals m' where r: "read_tags lib m = (vals, m')" by (cases "read_tags lib m")
  from append_all_ok [OF assms, of "map (\<lambda>(k, v). (name m' @ ''.'' @ k, ts, v)) vals"]
  obtain b' where "append_values b (name m') ts vals = Inr b'" "bounded_store b'"
    by (auto simp: append_values_append_all)
  with r show ?thesis by (simp add: PLCReader_cycle_def)
qed

text \<open>
  Claim C7 says that an unsupported type met at read time is fatal for its descriptor
  only, and aborts neither the rest of the cycle nor the connection state. The code
  does not make that difference: the \<open>ValueError\<close> of \<open>_parse_value\<close> is raised inside
  the \<open>try\<close> of \<open>read_tags\<close> and handled by the same \<open>except\<close> clause as a failed read.
  With a first descriptor of type \<open>string\<close> followed by a readable one, the cycle
  returns nothing, the manager is disconnected, and the second descriptor, which reads
  when it is configured alone, is never asked for.
\<close>

theorem unsupported_type_aborts_cycle:
  "fst (read_tags demo_lib (demo_manager [demo_tag ''s1'' 1 4 ''string'', demo_tag ''s2'' 1 4 ''real''])) = []
   \<and> \<not> connected (snd (read_tags demo_lib
          (demo_manager [demo_tag ''s1'' 1 4 ''string'', demo_tag ''s2'' 1 4 ''real''])))
   \<and> last_error (snd (read_tags demo_lib
          (demo_manager [demo_tag ''s1'' 1 4 ''string'', demo_tag ''s2'' 1 4 ''real''])))
       = Some ''Read error for s1: Unsupported data type: string''
   \<and> fst (read_tags demo_lib (demo_manager [demo_tag ''s2'' 1 4 ''real''])) = [(''s2'', 4)]
   \<and> connected (snd (read_tags demo_lib (demo_manager [demo_tag ''s2'' 1 4 ''real''])))"
  by (simp add: demo_simps)

text \<open>
  Claim C7, amended. An unsupported type met at read time never leaves \<open>read_tags\<close> as
  an exception: when the descriptors before \<open>t\<close> read, \<open>t\<close> has no custom decoder, its
  lower-cased type is none of \<open>real\<close>, \<open>int\<close>, \<open>dint\<close>, \<open>bool\<close>, and its block reads,
  \<open>read_tags\<close> returns the values of the descriptors before \<open>t\<close>, records
  \<open>Read error for <name>: Unsupported data type: <type>\<close>, disconnects the manager and
  skips the descriptors after \<open>t\<close>; and the cycle of the polling thread around it, on a
  store whose deques respect its capacity, ends without an exception.
\<close>

theorem unsupported_type_is_read_failure:
  assumes "ensure_connection lib m = (True, m1)"
    and "tags m1 = pre @ t # post"
    and "read_prefix lib (client m1) pre = Some (kvs, c1)"
    and "parse t = None"
    and "lower (data_type t) \<notin> {''real'', ''int'', ''dint'', ''bool''}"
    and "Client_db_read lib (db_number t) (start t) (tag_size t) c1 = (Inr raw, c2)"
    and "bounded_store b"
  shows "read_tags lib m =
           (dict_of kvs,
            m1\<lparr>client := c2,
               last_error :=
                 Some (''Read error for '' @ tag_name t @ '': Unsupported data type: '' @ data_type t),
               connected := False\<rparr>)
         \<and> calls c2 = calls (client m1) @ map read_call (pre @ [t])
         \<and> (\<exists>b'. PLCReader_cycle lib start_time m b = Inr (snd (read_tags lib m), b'))"
proof -
  have pv: "parse_value lib t raw = Inl (''Unsupported data type: '' @ data_type t)"
    using assms(4,5) by (simp add: parse_value_def Let_def)
  have r: "read_one lib t c1 = (Inl (''Unsupported data type: '' @ data_type t), c2)"
    using assms(6) pv by (simp add: read_one_def)
  from cycle_returns [OF assms(7), of lib start_time m]
  have "\<exists>b'. PLCReader_cycle lib start_time m b = Inr (snd (read_tags lib m), b')"
    by blast
  with read_tags_at_failure [OF assms(1,2,3) r] read_prefix_calls [OF assms(3)]
    read_one_calls [OF r]
  show ?thesis by simp
qed

theorem unsupported_type_is_read_failure_witness:
  "ensure_connection demo_lib
     (demo_manager [demo_tag ''s0'' 1 2 ''int'', demo_tag ''s1'' 1 4 ''string'', demo_tag ''s2'' 1 4 ''real''])
     = (True, demo_connected
          [demo_tag ''s0'' 1 2 ''int'', demo_tag ''s1'' 1 4 ''string'', demo_tag ''s2'' 1 4 ''real''])
   \<and> lower ''string'' \<notin> {''real'', ''int'', ''dint'', ''bool''}
   \<and> fst (read_tags demo_lib
         (demo_manager [demo_tag ''s0'' 1 2 ''int'', demo_tag ''s1'' 1 4 ''string'', demo_tag ''s2'' 1 4 ''real'']))
       = [(''s0'', 2)]
   \<and> last_error (snd (read_tags demo_lib
         (demo_manager [demo_tag ''s0'' 1 2 ''int'', demo_tag ''s1'' 1 4 ''string'', demo_tag ''s2'' 1 4 ''real''])))
       = Some ''Read error for s1: Unsupported data type: string''
   \<and> bounded_store (DataBuffer_init 500 :: (int, int) DataBuffer)
   \<and> (\<exists>m' b'. PLCReader_cycle demo_lib (0 :: int)
         (demo_manager [demo_tag ''s0'' 1 2 ''int'', demo_tag ''s1'' 1 4 ''string'', demo_tag ''s2'' 1 4 ''real''])
         (DataBuffer_init 500) = Inr (m', b'))"
proof -
  let ?tgs = "[demo_tag ''s0'' 1 2 ''int'', demo_tag ''s1'' 1 4 ''string'', demo_tag ''s2'' 1 4 ''real'']"
  let ?c1 = "\<lparr>session = True,
              calls = [CallConnect ''192.168.0.10'' 0 1, CallGetConnected, CallDbRead 1 0 2]\<rparr>"
  let ?c2 = "\<lparr>session = True,
              calls = [CallConnect ''192.168.0.10'' 0 1, CallGetConnected, CallDbRead 1 0 2,
                       CallDbRead 1 0 4]\<rparr>"
  have ts: "tags (demo_connected ?tgs)
            = [demo_tag ''s0'' 1 2 ''int''] @ demo_tag ''s1'' 1 4 ''string'' # [demo_tag ''s2'' 1 4 ''real'']"
    by (simp add: demo_connected_def demo_manager_def PLCManager_init_def)
  have p: "read_prefix demo_lib (client (demo_connected ?tgs)) [demo_tag ''s0'' 1 2 ''int'']
           = Some ([(''s0'', 2)], ?c1)"
    by (simp add: demo_simps)
  have np: "parse (demo_tag ''s1'' 1 4 ''string'') = None"
    by (simp add: demo_tag_def)
  have lw: "lower ''string'' \<notin> {''real'', ''int'', ''dint'', ''bool''}"
    by (simp add: lower_def lower_char_def)
  then have ty: "lower (data_type (demo_tag ''s1'' 1 4 ''string'')) \<notin> {''real'', ''int'', ''dint'', ''bool''}"
    by (simp add: demo_tag_def)
  have rd: "Client_db_read demo_lib (db_number (demo_tag ''s1'' 1 4 ''string''))
              (start (demo_tag ''s1'' 1 4 ''string'')) (tag_size (demo_tag ''s1'' 1 4 ''string'')) ?c1
            = (Inr (replicate 4 0), ?c2)"
    by (simp add: demo_simps)
  have bs: "bounded_store (DataBuffer_init 500 :: (int, int) DataBuffer)"
    by (simp add: bounded_store_def DataBuffer_init_def)
  note th = unsupported_type_is_read_failure [OF demo_ensure [of ?tgs] ts p np ty rd bs, of 0]
  from th have rt: "read_tags demo_lib (demo_manager ?tgs) =
          (dict_of [(''s0'', 2)],
           (demo_connected ?tgs)
             \<lparr>client := ?c2,
              last_error := Some ''Read error for s1: Unsupported data type: string'',
              connected := False\<rparr>)"
    by (simp add: demo_tag_def)
  from th have cy: "\<exists>m' b'. PLCReader_cycle demo_lib (0 :: int) (demo_manager ?tgs)
                      (DataBuffer_init 500) = Inr (m', b')"
    by blast
  from rt lw bs cy show ?thesis by (simp add: demo_ensure dict_of_def)
qed

section \<open>Properties of the endpoints\<close>

lemma status_loop_map:
  "status_loop ms parts = parts @ map status_text ms"
proof (induction ms arbitrary: parts)
  case Nil
  then show ?case by simp
next
  case (Cons m ms)
  have "(if connected m then name m @ '': verbunden''
         else (case last_error m of
                 Some e \<Rightarrow>
                   if truthy (Some e) then name m @ '': '' @ e
                   else name m @ '': nicht verbunden''
               | None \<Rightarrow> name m @ '': nicht verbunden'')) = status_text m"
    by (simp add: status_text_def split: option.splits)
  then show ?case using Cons.IH by simp
qed

lemma data_route_status:
  "map_of (fst (data_route b ms args)) ''status'' = Some (JString (join '' | '' (map status_text ms)))"
  by (simp add: data_route_def Let_def status_loop_map split: prod.splits)

text \<open>
  Claim C4 gives the words of the summary as \<open>connected\<close> and \<open>disconnected\<close>. The code
  writes them in German: for one connected device and one disconnected device with the
  error \<open>timeout\<close> the status is \<open>dev1: verbunden | dev2: timeout\<close>, not
  \<open>dev1: connected | dev2: timeout\<close>.
\<close>

theorem status_summary_german:
  "map_of (fst (data_route (DataBuffer_init 500 :: (int, int) DataBuffer) demo_two_devices []))
     ''status'' = Some (JString ''dev1: verbunden | dev2: timeout'')
   \<and> map_of (fst (data_route (DataBuffer_init 500 :: (int, int) DataBuffer) demo_two_devices []))
     ''status'' \<noteq> Some (JString ''dev1: connected | dev2: timeout'')"
  by (simp add: data_route_status status_text_def demo_two_devices_def demo_connected_def
      demo_manager_def PLCManager_init_def)

text \<open>
  Claim C4, amended. For every list of managers, the status of the \<open>/data\<close> payload is
  the texts of the managers in configuration order, joined with \<open> | \<close>, where the text of
  a manager is \<open><name>: verbunden\<close> if it is connected, else \<open><name>: <last_error>\<close> if
  an error that is not empty is recorded, else \<open><name>: nicht verbunden\<close>.
\<close>

theorem status_summary:
  "map_of (fst (data_route b ms args)) ''status''
     = Some (JString (join '' | '' (map status_text ms)))
   \<and> status_text m =
       (if connected m then name m @ '': verbunden''
        else if last_error m \<noteq> None \<and> last_error m \<noteq> Some [] then name m @ '': '' @ the (last_error m)
        else name m @ '': nicht verbunden'')"
proof (rule conjI)
  have parts: "status_loop ms [] = map status_text ms"
    using status_loop_map [of ms "[]"] by simp
  have "map_of (fst (data_route b ms args)) ''status''
          = Some (JString (join '' | '' (status_loop ms [])))"
    by (simp add: data_route_def Let_def split: prod.splits)
  with parts show "map_of (fst (data_route b ms args)) ''status''
          = Some (JString (join '' | '' (map status_text ms)))"
    by simp
next
  show "status_text m =
       (if connected m then name m @ '': verbunden''
        else if last_error m \<noteq> None \<and> last_error m \<noteq> Some [] then name m @ '': '' @ the (last_error m)
        else name m @ '': nicht verbunden'')"
    by (cases "last_error m") (simp_all add: status_text_def)
qed

text \<open>
  Claim C6 names the second key of the \<open>/health\<close> object \<open>devices\<close>. The code names it
  \<open>plcs\<close>: the object has no key \<open>devices\<close>.
\<close>

theorem health_has_no_devices_key:
  "map_of (health demo_two_devices :: (string, (int, int) json) dict) ''devices'' = None
   \<and> (health demo_two_devices :: (string, (int, int) json) dict)
       = [(''status'', JString ''ok''), (''plcs'', JFlags [(''dev1'', True), (''dev2'', False)])]"
  by (simp add: health_def demo_two_devices_def demo_connected_def demo_manager_def
      PLCManager_init_def)

lemma health_loop_lookup:
  "map_of (health_loop ms plcs) n
     = (case map_of (rev (map (\<lambda>m. (name m, connected m)) ms)) n of
          Some c \<Rightarrow> Some c
        | None \<Rightarrow> map_of plcs n)"
  by (induction ms arbitrary: plcs) (auto simp: update_conv' map_of_append split: option.splits)

lemma health_loop_keys:
  "distinct (map fst plcs @ map name ms) \<Longrightarrow>
   health_loop ms plcs = plcs @ map (\<lambda>m. (name m, connected m)) ms"
proof (induction ms arbitrary: plcs)
  case Nil
  then show ?case by simp
next
  case (Cons m ms)
  from Cons.prems have "name m \<notin> fst ` set plcs" by auto
  then have u: "AList.update (name m) (connected m) plcs = plcs @ [(name m, connected m)]"
    by (induction plcs) auto
  from Cons.prems have "distinct (map fst (plcs @ [(name m, connected m)]) @ map name ms)"
    by auto
  from Cons.IH [OF this] u show ?case by simp
qed

text \<open>
  Claim C6, amended. For every list of managers the \<open>/health\<close> object is
  \<open>{status: "ok", plcs: {name: bool}}\<close>; the boolean of a name is the flag \<open>connected\<close>
  of the last manager of that name, and when the names of the managers are distinct
  the entries are the managers' names with their flags, in configuration order.
\<close>

theorem health_shape:
  "\<exists>flags. (health ms :: (string, ('t, 'v) json) dict)
              = [(''status'', JString ''ok''), (''plcs'', JFlags flags)]
          \<and> (\<forall>n. map_of flags n = map_of (rev (map (\<lambda>m. (name m, connected m)) ms)) n)
          \<and> (distinct (map name ms) \<longrightarrow> flags = map (\<lambda>m. (name m, connected m)) ms)"
proof -
  have "\<forall>n. map_of (health_loop ms []) n = map_of (rev (map (\<lambda>m. (name m, connected m)) ms)) n"
    by (simp add: health_loop_lookup split: option.splits)
  moreover have "distinct (map name ms) \<longrightarrow> health_loop ms [] = map (\<lambda>m. (name m, connected m)) ms"
    using health_loop_keys [of "[]" ms] by simp
  ultimately show ?thesis by (simp add: health_def)
qed

theorem health_shape_witness:
  "distinct (map name demo_two_devices)
   \<and> (\<exists>flags. (health demo_two_devices :: (string, (int, int) json) dict)
                = [(''status'', JString ''ok''), (''plcs'', JFlags flags)]
            \<and> flags = [(''dev1'', True), (''dev2'', False)])"
proof -
  have d: "distinct (map name demo_two_devices)"
    by (simp add: demo_two_devices_def demo_connected_def demo_manager_def PLCManager_init_def)
  have m: "map (\<lambda>m. (name m, connected m)) demo_two_devices = [(''dev1'', True), (''dev2'', False)]"
    by (simp add: demo_two_devices_def demo_connected_def demo_manager_def PLCManager_init_def)
  from health_shape [of demo_two_devices, where ?'t = int and ?'v = int] d m
  show ?thesis by auto
qed

text \<open>
  Claim C8. When the request has no parameter \<open>signals\<close>, or an empty one, the payload
  of \<open>/data\<close> holds an empty \<open>series\<close> object, in particular without the empty string as
  a key, and the status string of the managers; the call has no error result and
  leaves the buffer as it is.
\<close>

theorem data_route_no_selection:
  assumes "map_of args ''signals'' = None \<or> map_of args ''signals'' = Some []"
  shows "data_route b ms args =
           ([(''series'', JSeries []),
             (''status'', JString (join '' | '' (status_loop ms [])))], b)"
proof -
  from assms have "fst (dict_get args ''signals'' []) = []"
    by (auto simp: dict_get_def)
  then show ?thesis
    by (simp add: data_route_def DataBuffer_snapshot_def)
qed

theorem data_route_no_selection_witness:
  "(map_of [] ''signals'' = (None :: string option)
      \<or> map_of [] ''signals'' = Some [])
   \<and> (map_of [(''signals'', [])] ''signals'' = (None :: string option)
      \<or> map_of [(''signals'', [])] ''signals'' = Some [])
   \<and> data_route (DataBuffer_init 500 :: (int, int) DataBuffer) demo_two_devices []
       = ([(''series'', JSeries []), (''status'', JString ''dev1: verbunden | dev2: timeout'')],
          DataBuffer_init 500)
   \<and> data_route (DataBuffer_init 500 :: (int, int) DataBuffer) demo_two_devices [(''signals'', [])]
       = ([(''series'', JSeries []), (''status'', JString ''dev1: verbunden | dev2: timeout'')],
          DataBuffer_init 500)"
proof -
  have s: "join '' | '' (status_loop demo_two_devices []) = ''dev1: verbunden | dev2: timeout''"
    by (simp add: demo_two_devices_def demo_connected_def demo_manager_def PLCManager_init_def)
  have a: "map_of [] ''signals'' = (None :: string option) \<or> map_of [] ''signals'' = Some []"
    by simp
  have b: "map_of [(''signals'', [])] ''signals'' = (None :: string option)
      \<or> map_of [(''signals'', [])] ''signals'' = Some []"
    by simp
  from data_route_no_selection [OF a, of "DataBuffer_init 500 :: (int, int) DataBuffer" demo_two_devices]
    data_route_no_selection [OF b, of "DataBuffer_init 500 :: (int, int) DataBuffer" demo_two_devices]
    s a b show ?thesis by simp
qed

text \<open>More generally, whatever the parameter is, the empty string is never a key of the
  series: empty pieces of the split are filtered out before the snapshot.\<close>

lemma data_route_no_empty_key:
  "data_route b ms args = (payload, b') \<Longrightarrow> map_of payload ''series'' = Some (JSeries series)
   \<Longrightarrow> map_of series [] = None"
proof -
  assume d: "data_route b ms args = (payload, b')"
    and p: "map_of payload ''series'' = Some (JSeries series)"
  let ?sel = "filter (\<lambda>s. s \<noteq> []) (split (CHR '','') (fst (dict_get args ''signals'' [])))"
  from d p have "series = fst (DataBuffer_snapshot b ?sel)"
    by (auto simp: data_route_def Let_def split: prod.splits)
  moreover have "[] \<notin> set ?sel" by simp
  ultimately show ?thesis by (simp add: snapshot_lookup)
qed

end
